theory Spec2Isabelle
  imports
    Complex_Main
    "HOL-Library.Sublist"
    "HOL-Library.Multiset"
    "HOL-Library.Char_ord"
    "HOL-Library.List_Lexorder"
    "HOL-Library.Product_Lexorder"
begin

section \<open>Python string operations used by lazy\_astroph.py\<close>

text \<open>
  The texts are modelled as \<^typ>\<open>string\<close>, that is lists of 8-bit characters; the model
  reads them as ASCII. \<open>str.lower()\<close> maps the letters A to Z to a to z and leaves
  every other character as it is.
\<close>

definition lower_char :: "char \<Rightarrow> char" where
  "lower_char c =
     (case map_of (zip ''ABCDEFGHIJKLMNOPQRSTUVWXYZ'' ''abcdefghijklmnopqrstuvwxyz'') c of
        Some d \<Rightarrow> d
      | None \<Rightarrow> c)"

definition lower :: "string \<Rightarrow> string" where
  "lower s = map lower_char s"

text \<open>
  The ASCII characters that \<open>str.split()\<close>, \<open>str.strip()\<close> and \<open>str.rstrip()\<close>
  without an argument treat as whitespace: tab, line feed, vertical tab, form feed,
  carriage return, the four separators 0x1C to 0x1F, and the space.
\<close>

definition is_space :: "char \<Rightarrow> bool" where
  "is_space c = (c \<in> set [CHR 0x09, CHR 0x0A, CHR 0x0B, CHR 0x0C, CHR 0x0D,
                            CHR 0x1C, CHR 0x1D, CHR 0x1E, CHR 0x1F, CHR 0x20])"

text \<open>\<open>n in s\<close> on two strings: \<open>n\<close> occurs in \<open>s\<close> as a contiguous piece.\<close>

fun str_in :: "string \<Rightarrow> string \<Rightarrow> bool" where
  "str_in n [] = (n = [])"
| "str_in n (c # cs) = (prefix n (c # cs) \<or> str_in n cs)"

text \<open>\<open>s.replace("\n", " ")\<close>.\<close>

definition replace_nl :: "string \<Rightarrow> string" where
  "replace_nl s = map (\<lambda>c. if c = CHR 0x0A then CHR 0x20 else c) s"

text \<open>\<open>s.replace("'", "")\<close>, of \<open>Paper.__init__\<close>.\<close>

definition remove_apostrophes :: "string \<Rightarrow> string" where
  "remove_apostrophes s = filter (\<lambda>c. c \<noteq> CHR 0x27) s"

text \<open>
  \<open>s.split()\<close>: the maximal runs of characters that are not whitespace, in order.
  The first argument is the token being read.
\<close>

fun split_ws_aux :: "string \<Rightarrow> string \<Rightarrow> string list" where
  "split_ws_aux cur [] = (if cur = [] then [] else [cur])"
| "split_ws_aux cur (c # cs) =
     (if is_space c
      then (if cur = [] then split_ws_aux [] cs else cur # split_ws_aux [] cs)
      else split_ws_aux (cur @ [c]) cs)"

definition split_ws :: "string \<Rightarrow> string list" where
  "split_ws s = split_ws_aux [] s"

text \<open>
  \<open>s.split(sep)\<close> for a separator string: the text is scanned from the left, each
  occurrence of \<open>sep\<close> closes a piece and the scan goes on behind it. Python raises
  ValueError for an empty separator; every call of the program passes a literal that
  is not empty, and the model returns the text as one piece there.
\<close>

function split_sep_aux :: "string \<Rightarrow> string \<Rightarrow> string \<Rightarrow> string list" where
  "split_sep_aux sep cur [] = [cur]"
| "split_sep_aux sep cur (c # cs) =
     (if sep \<noteq> [] \<and> prefix sep (c # cs)
      then cur # split_sep_aux sep [] (drop (length sep) (c # cs))
      else split_sep_aux sep (cur @ [c]) cs)"
  by pat_completeness auto
termination
  by (relation "measure (\<lambda>(sep, cur, s). length s)") (auto simp: neq_Nil_conv)

definition split_sep :: "string \<Rightarrow> string \<Rightarrow> string list" where
  "split_sep sep s = split_sep_aux sep [] s"

text \<open>\<open>s.strip(chars)\<close>, \<open>s.strip()\<close> and \<open>s.rstrip()\<close>.\<close>

definition strip_chars :: "string \<Rightarrow> string \<Rightarrow> string" where
  "strip_chars chars s =
     rev (dropWhile (\<lambda>c. c \<in> set chars) (rev (dropWhile (\<lambda>c. c \<in> set chars) s)))"

definition strip :: "string \<Rightarrow> string" where
  "strip s = rev (dropWhile is_space (rev (dropWhile is_space s)))"

definition rstrip :: "string \<Rightarrow> string" where
  "rstrip s = rev (dropWhile is_space (rev s))"

text \<open>\<open>sep.join(xs)\<close>.\<close>

fun join :: "string \<Rightarrow> string list \<Rightarrow> string" where
  "join sep [] = []"
| "join sep [x] = x"
| "join sep (x # y # ys) = x @ sep @ join sep (y # ys)"

text \<open>
  \<open>list(set(xs))\<close> for strings and channels: the elements of \<open>xs\<close>, each once. CPython
  lists them in the order of its hash table, which the language does not fix; the model
  lists them in the order of their first occurrence, and no statement below depends
  on that order.
\<close>

fun list_set_aux :: "'a list \<Rightarrow> 'a list \<Rightarrow> 'a list" where
  "list_set_aux seen [] = seen"
| "list_set_aux seen (x # xs) =
     (if x \<in> set seen then list_set_aux seen xs else list_set_aux (seen @ [x]) xs)"

definition list_set :: "'a list \<Rightarrow> 'a list" where
  "list_set xs = list_set_aux [] xs"

section \<open>The data model\<close>

text \<open>
  Class \<open>Keyword\<close>. The matching mode is the string the source stores (\<open>"any"\<close> or
  \<open>"unique"\<close>); the channel is \<open>None\<close> until the inputs file has declared one.
\<close>

record Keyword =
  name :: string
  matching :: string
  required :: bool
  channel :: "string option"
  excludes :: "string list"

definition mk_Keyword :: "string \<Rightarrow> string \<Rightarrow> bool \<Rightarrow> string option \<Rightarrow> string list \<Rightarrow> Keyword" where
  "mk_Keyword n m r c ex =
     \<lparr>name = n, matching = m, required = r, channel = c, excludes = list_set ex\<rparr>"

text \<open>
  Class \<open>Paper\<close>; its field \<open>keywords\<close> is \<open>p_keywords\<close> here. The flag
  \<open>posted_to_slack\<close> holds 0, False or 1 in the source and is only ever tested for
  truth, so it is a \<^typ>\<open>bool\<close> here.
\<close>

record Paper =
  arxiv_id :: string
  title :: string
  url :: string
  p_keywords :: "string list"
  channels :: "string option list"
  posted_to_slack :: bool

definition mk_Paper :: "string \<Rightarrow> string \<Rightarrow> string \<Rightarrow> string list \<Rightarrow> string option list \<Rightarrow> Paper" where
  "mk_Paper i t u kws chs =
     \<lparr>arxiv_id = i, title = remove_apostrophes t, url = u, p_keywords = kws,
      channels = list_set chs, posted_to_slack = False\<rparr>"

text \<open>\<open>Paper.__str__\<close> and \<open>Paper.kw_str\<close>.\<close>

definition paper_str :: "Paper \<Rightarrow> string" where
  "paper_str p =
     arxiv_id p @ '' : '' @ join '' '' (split_ws (title p)) @ [CHR 0x0A] @ ''  '' @ url p @ [CHR 0x0A]"

definition kw_str :: "Paper \<Rightarrow> string" where
  "kw_str p = join '', '' (p_keywords p)"

section \<open>The feed matcher: \<open>get_match\<close> inside \<open>ArxivQuery.do_query\<close>\<close>

text \<open>
  \<open>get_match\<close> is a closure over the entry's \<open>abstract\<close> and \<open>title\<close>; they are its
  first two arguments here. The result is the pair (matched, excluded).
\<close>

definition excluded_by :: "string \<Rightarrow> string \<Rightarrow> Keyword \<Rightarrow> bool" where
  "excluded_by abstract ttl k =
     list_ex (\<lambda>n. str_in n (replace_nl (lower abstract)) \<or> str_in n (lower ttl)) (excludes k)"

definition get_match :: "string \<Rightarrow> string \<Rightarrow> Keyword \<Rightarrow> bool \<times> bool" where
  "get_match abstract ttl k =
     (if excluded_by abstract ttl k then (True, True)
      else if matching k = ''any'' then
        (if str_in (name k) (replace_nl (lower abstract)) \<or> str_in (name k) (lower ttl)
         then (True, False) else (False, False))
      else if matching k = ''unique'' then
        (let qa = map (\<lambda>l. strip_chars [CHR 0x22, CHR '':'', CHR ''.'', CHR '','', CHR ''!'', CHR ''?''] (lower l))
                      (split_ws abstract);
             qt = map (\<lambda>l. strip_chars [CHR 0x22, CHR '':'', CHR ''.'', CHR '','', CHR ''!'', CHR ''?''] (lower l))
                      (split_ws ttl)
         in if name k \<in> set (qa @ qt) then (True, False) else (False, False))
      else (False, False))"

text \<open>
  The loop over the keywords in \<open>do_query\<close>. The state is the pair of
  \<open>meets_requirements\<close> and \<open>key_match_results\<close>; \<open>break\<close> returns it at once.
\<close>

fun match_loop :: "string \<Rightarrow> string \<Rightarrow> Keyword list \<Rightarrow> bool \<times> Keyword list \<Rightarrow> bool \<times> Keyword list" where
  "match_loop abstract ttl [] st = st"
| "match_loop abstract ttl (k # ks) (meets_requirements, key_match_results) =
     (case get_match abstract ttl k of
        (match, excluded) \<Rightarrow>
          if required k \<and> \<not> match then (False, key_match_results)
          else if match \<and> \<not> excluded
            then match_loop abstract ttl ks (meets_requirements, key_match_results @ [k])
            else match_loop abstract ttl ks (meets_requirements, key_match_results))"

section \<open>One feed entry in \<open>ArxivQuery.do_query\<close>\<close>

text \<open>
  The fetch and the feed parser are outside the model: \<open>do_query\<close> starts from the
  parsed entries. An entry has the fields the loop reads; a link is the pair of its
  \<open>rel\<close> and its \<open>href\<close>.
\<close>

record Entry =
  e_id :: string
  e_title :: string
  e_links :: "(string \<times> string) list"
  e_summary :: string

datatype error = ValueError | UnboundLocalError

text \<open>
  What the loop body does with one entry: \<open>continue\<close> at the resume check, no Paper
  because no keyword matched, or a Paper appended to \<open>results\<close>.
\<close>

datatype outcome = Skipped | Dropped | Produced Paper

text \<open>\<open>for l in e.links: if l.rel == "alternate": cur_url = l.href\<close>; \<open>url\<close> may be unbound.\<close>

fun links_loop :: "(string \<times> string) list \<Rightarrow> string option \<Rightarrow> string option" where
  "links_loop [] cur_url = cur_url"
| "links_loop ((rel, href) # ls) cur_url =
     (if rel = ''alternate'' then links_loop ls (Some href) else links_loop ls cur_url)"

text \<open>\<open>x.split("v")[0]\<close>: the identifier without its version.\<close>

definition strip_version :: "string \<Rightarrow> string" where
  "strip_version x = hd (split_sep ''v'' x)"

text \<open>
  \<open>float\<close> is Python's built-in, not code of this repository: it is the parameter
  \<open>float\<close>, which returns \<open>None\<close> where Python raises ValueError, and \<open><\<close> on its
  values is the comparison of the type \<open>'f\<close>, of which nothing is assumed.

  The body of the loop from the resume check on: \<open>aid\<close> is the variable
  \<open>arxiv_id\<close>, \<open>ttl\<close> is \<open>title\<close>, and \<open>cur_url\<close> is \<open>url\<close> as the previous
  entries have left it; it is returned with the outcome.
\<close>

definition entry_body ::
  "(string \<Rightarrow> 'f::ord option) \<Rightarrow> Keyword list \<Rightarrow> string option \<Rightarrow> string \<Rightarrow> string
     \<Rightarrow> string option \<Rightarrow> Entry \<Rightarrow> error + (outcome \<times> string option)" where
  "entry_body float kwds old_id aid ttl cur_url e =
     (let skip =
            (case old_id of
               None \<Rightarrow> Inr False
             | Some old \<Rightarrow>
                 (case float (strip_version aid) of
                    None \<Rightarrow> Inl ValueError
                  | Some a \<Rightarrow>
                      (case float (strip_version old) of
                         None \<Rightarrow> Inl ValueError
                       | Some b \<Rightarrow> Inr (a < b))))
      in case skip of
           Inl err \<Rightarrow> Inl err
         | Inr True \<Rightarrow> Inr (Skipped, cur_url)
         | Inr False \<Rightarrow>
             (let cur_url' = links_loop (e_links e) cur_url;
                  abstract = e_summary e;
                  key_match_results = snd (match_loop abstract ttl kwds (True, []));
                  keys_matched = list_set (map name key_match_results);
                  chans = map channel key_match_results
              in if keys_matched \<noteq> []
                 then (case cur_url' of
                         None \<Rightarrow> Inl UnboundLocalError
                       | Some u \<Rightarrow> Inr (Produced (mk_Paper aid ttl u keys_matched chans), cur_url'))
                 else Inr (Dropped, cur_url')))"

definition do_query_entry ::
  "(string \<Rightarrow> 'f::ord option) \<Rightarrow> Keyword list \<Rightarrow> string option \<Rightarrow> string option \<Rightarrow> Entry
     \<Rightarrow> error + (outcome \<times> string option)" where
  "do_query_entry float kwds old_id cur_url e =
     entry_body float kwds old_id (last (split_sep ''/abs/'' (e_id e))) (replace_nl (e_title e)) cur_url e"

text \<open>
  The loop over \<open>feed.entries\<close>. The state is \<open>results\<close>, \<open>latest_id\<close> and \<open>url\<close>;
  \<open>do_query\<close> returns the first two.
\<close>

fun do_query_loop ::
  "(string \<Rightarrow> 'f::ord option) \<Rightarrow> Keyword list \<Rightarrow> string option \<Rightarrow> Entry list
     \<Rightarrow> Paper list \<times> string option \<times> string option
     \<Rightarrow> error + (Paper list \<times> string option \<times> string option)" where
  "do_query_loop float kwds old_id [] st = Inr st"
| "do_query_loop float kwds old_id (e # es) (results, latest_id, cur_url) =
     (let latest_id' =
            (case latest_id of
               None \<Rightarrow> Some (last (split_sep ''/abs/'' (e_id e)))
             | Some l \<Rightarrow> Some l)
      in case do_query_entry float kwds old_id cur_url e of
           Inl err \<Rightarrow> Inl err
         | Inr (Produced p, cur_url') \<Rightarrow> do_query_loop float kwds old_id es (results @ [p], latest_id', cur_url')
         | Inr (_, cur_url') \<Rightarrow> do_query_loop float kwds old_id es (results, latest_id', cur_url'))"

definition do_query ::
  "(string \<Rightarrow> 'f::ord option) \<Rightarrow> Keyword list \<Rightarrow> string option \<Rightarrow> Entry list
     \<Rightarrow> error + (Paper list \<times> string option)" where
  "do_query float kwds old_id entries =
     (case do_query_loop float kwds old_id entries ([], None, None) of
        Inl err \<Rightarrow> Inl err
      | Inr (results, latest_id, cur_url) \<Rightarrow> Inr (results, latest_id))"

text \<open>
  A reading of decimal literals, to run the model on identifiers such as
  \<open>2301.00010\<close>: digits, with at most one point among them, read exactly as a
  rational; every other text is refused. Binary floating point rounds monotonically
  and keeps identifiers of this length apart, so the order of two such identifiers
  is that of their exact values.
\<close>

definition digit_val :: "char \<Rightarrow> nat option" where
  "digit_val c = map_of (zip ''0123456789'' [0, 1, 2, 3, 4, 5, 6, 7, 8, 9]) c"

fun digits_val :: "string \<Rightarrow> nat \<Rightarrow> nat option" where
  "digits_val [] acc = Some acc"
| "digits_val (c # cs) acc =
     (case digit_val c of None \<Rightarrow> None | Some d \<Rightarrow> digits_val cs (10 * acc + d))"

definition decimal :: "string \<Rightarrow> rat option" where
  "decimal s =
     (let ip = takeWhile (\<lambda>c. c \<noteq> CHR ''.'') s;
          fp = drop 1 (dropWhile (\<lambda>c. c \<noteq> CHR ''.'') s)
      in if ip @ fp = [] then None
         else (case digits_val (ip @ fp) 0 of
                 None \<Rightarrow> None
               | Some n \<Rightarrow> Some (of_nat n / of_nat (10 ^ length fp))))"

section \<open>The channel filter and the Slack post\<close>

text \<open>
  \<open>filter_keyword_requires\<close> and \<open>slack_post\<close> write the flag \<open>posted_to_slack\<close> of
  Paper objects that the lists only refer to, so the papers live in a store: a list
  of papers is a list of references, and the same reference may occur twice.
\<close>

type_synonym ref = nat

type_synonym store = "ref \<Rightarrow> Paper"

text \<open>
  The dictionary \<open>channel_req\<close> is the list of its items in the order of iteration,
  which is the order in which the channels were first declared; the thresholds come
  from \<open>int(...)\<close> and may be any integer.
\<close>

type_synonym channel_req = "(string \<times> int) list"

text \<open>\<open>for p in papers: p.posted_to_slack = False\<close>.\<close>

fun reset_flags :: "ref list \<Rightarrow> store \<Rightarrow> store" where
  "reset_flags [] h = h"
| "reset_flags (p # ps) h = reset_flags ps (h(p := (h p)\<lparr>posted_to_slack := False\<rparr>))"

text \<open>
  The inner loop of \<open>filter_keyword_requires\<close> for the channel \<open>c\<close> with the threshold
  \<open>n = channel_req[c]\<close>; the state is the store and \<open>filtered_papers\<close>.
\<close>

fun filter_channel :: "string \<Rightarrow> int \<Rightarrow> ref list \<Rightarrow> store \<times> ref list \<Rightarrow> store \<times> ref list" where
  "filter_channel c n [] st = st"
| "filter_channel c n (p # ps) (h, filtered_papers) =
     (if \<not> posted_to_slack (h p) then
        (if Some c \<in> set (channels (h p)) then
           (if n \<le> int (length (p_keywords (h p)))
            then filter_channel c n ps
                   (h(p := (h p)\<lparr>posted_to_slack := True\<rparr>), filtered_papers @ [p])
            else filter_channel c n ps (h, filtered_papers))
         else filter_channel c n ps (h, filtered_papers))
      else filter_channel c n ps (h, filtered_papers))"

fun filter_channels :: "channel_req \<Rightarrow> ref list \<Rightarrow> store \<times> ref list \<Rightarrow> store \<times> ref list" where
  "filter_channels [] ps st = st"
| "filter_channels ((c, n) # cs) ps st = filter_channels cs ps (filter_channel c n ps st)"

definition filter_keyword_requires :: "store \<Rightarrow> ref list \<Rightarrow> channel_req option \<Rightarrow> store \<times> ref list" where
  "filter_keyword_requires h papers channel_req =
     (case channel_req of
        None \<Rightarrow> (h, papers)
      | Some creq \<Rightarrow> filter_channels creq papers (reset_flags papers h, []))"

text \<open>
  The papers that the pass of each channel appends, channel by channel: the same
  loops, with the list started afresh for every channel.
\<close>

fun filter_groups :: "channel_req \<Rightarrow> ref list \<Rightarrow> store \<Rightarrow> ref list list" where
  "filter_groups [] ps h = []"
| "filter_groups ((c, n) # cs) ps h =
     (case filter_channel c n ps (h, []) of (h', g) \<Rightarrow> g # filter_groups cs ps h')"

text \<open>The test that a paper passes for a channel and its threshold.\<close>

definition qualifies :: "Paper \<Rightarrow> string \<times> int \<Rightarrow> bool" where
  "qualifies p cn = (Some (fst cn) \<in> set (channels p) \<and> snd cn \<le> int (length (p_keywords p)))"

text \<open>
  \<open>slack_post\<close>. What leaves the program is the list of its outputs, one for each
  channel: the line printed when there is no webhook, or the payload handed to
  \<open>curl\<close> together with the webhook.
\<close>

record payload =
  pl_channel :: string
  pl_username :: "string option"
  pl_icon_emoji :: "string option"
  pl_text :: string

datatype slack_output = Printed string | Posted string payload

fun slack_channel :: "string \<Rightarrow> int \<Rightarrow> ref list \<Rightarrow> store \<times> string \<Rightarrow> store \<times> string" where
  "slack_channel c n [] st = st"
| "slack_channel c n (p # ps) (h, channel_body) =
     (if \<not> posted_to_slack (h p) then
        (if Some c \<in> set (channels (h p)) then
           (if n \<le> int (length (p_keywords (h p)))
            then (let keywds = strip (join '', '' (p_keywords (h p)))
                  in slack_channel c n ps
                       (h(p := (h p)\<lparr>posted_to_slack := True\<rparr>),
                        channel_body @ paper_str (h p) @ '' ['' @ keywds @ '']'' @ [CHR 0x0A, CHR 0x0A]))
            else slack_channel c n ps (h, channel_body))
         else slack_channel c n ps (h, channel_body))
      else slack_channel c n ps (h, channel_body))"

fun slack_post ::
  "ref list \<Rightarrow> channel_req \<Rightarrow> string option \<Rightarrow> string option \<Rightarrow> string option \<Rightarrow> store
     \<Rightarrow> store \<times> slack_output list" where
  "slack_post papers [] username icon_emoji webhook h = (h, [])"
| "slack_post papers ((c, n) # cs) username icon_emoji webhook h =
     (case slack_channel c n papers (h, []) of
        (h', channel_body) \<Rightarrow>
          (case slack_post papers cs username icon_emoji webhook h' of
             (h'', outs) \<Rightarrow>
               (h'',
                (case webhook of
                   None \<Rightarrow> Printed (''channel: '' @ c)
                 | Some hook \<Rightarrow>
                     Posted hook \<lparr>pl_channel = c, pl_username = username,
                                  pl_icon_emoji = icon_emoji, pl_text = channel_body\<rparr>) # outs)))"

text \<open>
  The two calls of \<open>doit\<close> when it is not a dry run: the papers are filtered, and the
  filtered list goes to \<open>slack_post\<close> with the same \<open>channel_req\<close>, which \<open>doit\<close> has
  always built as a dictionary.
\<close>

definition filter_then_post ::
  "store \<Rightarrow> ref list \<Rightarrow> channel_req \<Rightarrow> string option \<Rightarrow> string option \<Rightarrow> string option
     \<Rightarrow> ref list \<times> slack_output list" where
  "filter_then_post h papers creq username icon_emoji webhook =
     (case filter_keyword_requires h papers (Some creq) of
        (h', filtered) \<Rightarrow> (filtered, snd (slack_post filtered creq username icon_emoji webhook h')))"

section \<open>A keyword line of the inputs file in \<open>doit\<close>\<close>

text \<open>
  \<open>doit\<close> lower-cases a line and strips it on the right; an empty line is skipped and
  a line that starts with \<open>#\<close> or \<open>@\<close> declares a channel. \<open>keyword_line\<close> is the
  branch for every other line: \<open>l\<close> is the prepared line and \<open>chan\<close> the variable
  \<open>channel\<close>. Unpacking \<open>kw, nots = l.split("not:")\<close> raises ValueError unless there
  are exactly two pieces.
\<close>

datatype line_kind = Blank | ChannelLine | KeywordLine

definition line_kind :: "string \<Rightarrow> line_kind" where
  "line_kind l =
     (if l = [] then Blank
      else if prefix ''#'' l \<or> prefix ''@'' l then ChannelLine
      else KeywordLine)"

definition keyword_line :: "string option \<Rightarrow> string \<Rightarrow> error + Keyword" where
  "keyword_line chan l =
     (case (if str_in ''not:'' l
            then (case split_sep ''not:'' l of
                    [kw, nots] \<Rightarrow> Inr (strip kw, map strip (split_sep '','' nots))
                  | _ \<Rightarrow> Inl ValueError)
            else Inr (strip l, [])) of
        Inl err \<Rightarrow> Inl err
      | Inr (kw, excl) \<Rightarrow>
          (let last_two = drop (length kw - 2) kw;
               mode = (if CHR ''-'' \<in> set last_two then ''unique'' else ''any'');
               kw1 = (if CHR ''-'' \<in> set last_two then butlast kw else kw);
               req = (CHR ''!'' \<in> set last_two);
               kw2 = (if CHR ''!'' \<in> set last_two then butlast kw1 else kw1)
           in Inr (mk_Keyword kw2 mode req chan excl)))"

definition parse_keyword_line :: "string option \<Rightarrow> string \<Rightarrow> error + Keyword" where
  "parse_keyword_line chan line = keyword_line chan (rstrip (lower line))"

section \<open>The aggregation in \<open>search_arxiv\<close>\<close>

text \<open>
  \<open>set(cat_papers)\<close> with \<open>Paper.__eq__\<close> and \<open>Paper.__hash__\<close>, which look at
  \<open>arxiv_id\<close> only: a paper whose identifier is already in the set is not added.
\<close>

fun paper_set :: "Paper list \<Rightarrow> Paper list \<Rightarrow> Paper list" where
  "paper_set seen [] = seen"
| "paper_set seen (p # ps) =
     (if arxiv_id p \<in> set (map arxiv_id seen) then paper_set seen ps
      else paper_set (seen @ [p]) ps)"

text \<open>\<open>Paper.__lt__\<close>; strings compare by their characters' codes, lexicographically.\<close>

definition paper_lt :: "Paper \<Rightarrow> Paper \<Rightarrow> bool" where
  "paper_lt a b =
     (if length (p_keywords a) = length (p_keywords b) then kw_str a < kw_str b
      else length (p_keywords a) < length (p_keywords b))"

definition paper_key :: "Paper \<Rightarrow> nat \<times> string" where
  "paper_key p = (length (p_keywords p), kw_str p)"

text \<open>
  \<open>xs.sort(reverse=True)\<close>: CPython reverses the list, sorts it stably with \<open><\<close> and
  reverses the result.
\<close>

definition sort_reverse :: "Paper list \<Rightarrow> Paper list" where
  "sort_reverse xs = rev (sort_key paper_key (rev xs))"

text \<open>
  The papers that \<open>search_arxiv\<close> returns, from the lists that the queries of the
  categories have returned. The order in which \<open>list(set(...))\<close> lists the set is
  CPython's and not fixed by the language; here it is the parameter \<open>set_order\<close>.
\<close>

definition search_arxiv_papers :: "(Paper list \<Rightarrow> Paper list) \<Rightarrow> Paper list list \<Rightarrow> Paper list" where
  "search_arxiv_papers set_order query_results =
     sort_reverse (set_order (paper_set [] (concat query_results)))"

section \<open>The exact-word match in the words of the specification\<close>

text \<open>
  Tokenize abstract and title on whitespace, strip each token of the surrounding
  punctuation characters (quote, colon, period, comma, exclamation and question
  mark), lower-case; the rule text equals one of these tokens.
\<close>

definition punctuation :: "char list" where
  "punctuation = [CHR 0x22, CHR '':'', CHR ''.'', CHR '','', CHR ''!'', CHR ''?'']"

definition spec_tokens :: "string \<Rightarrow> string list" where
  "spec_tokens text = map (\<lambda>t. lower (strip_chars punctuation t)) (split_ws text)"

definition spec_exact_word :: "string \<Rightarrow> string \<Rightarrow> string \<Rightarrow> bool" where
  "spec_exact_word rule_text abstract ttl =
     (rule_text \<in> set (spec_tokens abstract) \<or> rule_text \<in> set (spec_tokens ttl))"

section \<open>Concrete inputs\<close>

text \<open>
  Two rules of one channel, as the inputs file \<open>#general\<close>, \<open>jet\<close>, \<open>black hole!\<close>
  gives them, and a feed entry whose title and abstract speak of a jet only.
\<close>

definition ex_jet :: Keyword where
  "ex_jet = \<lparr>name = ''jet'', matching = ''any'', required = False,
             channel = Some ''#general'', excludes = []\<rparr>"

definition ex_black_hole :: Keyword where
  "ex_black_hole = \<lparr>name = ''black hole'', matching = ''any'', required = True,
                    channel = Some ''#general'', excludes = []\<rparr>"

definition ex_rules :: "Keyword list" where
  "ex_rules = [ex_jet, ex_black_hole]"

definition ex_entry :: Entry where
  "ex_entry = \<lparr>e_id = ''http://arxiv.org/abs/2301.00015v2'', e_title = ''A jet'',
               e_links = [(''alternate'', ''http://arxiv.org/abs/2301.00015v2'')],
               e_summary = ''We see a jet''\<rparr>"

definition ex_paper :: Paper where
  "ex_paper = \<lparr>arxiv_id = ''2301.00015v2'', title = ''A jet'',
               url = ''http://arxiv.org/abs/2301.00015v2'', p_keywords = [''jet''],
               channels = [Some ''#general''], posted_to_slack = False\<rparr>"

text \<open>
  The required rule \<open>black hole! NOT: jet\<close>: its text does not occur in the entry, one
  of its exclude terms does.
\<close>

definition ex_black_hole_not_jet :: Keyword where
  "ex_black_hole_not_jet = \<lparr>name = ''black hole'', matching = ''any'', required = True,
                            channel = Some ''#general'', excludes = [''jet'']\<rparr>"

definition ex_rules_excluded :: "Keyword list" where
  "ex_rules_excluded = [ex_black_hole_not_jet, ex_jet]"

text \<open>An older entry, for the resume check.\<close>

definition ex_entry_old :: Entry where
  "ex_entry_old = \<lparr>e_id = ''http://arxiv.org/abs/2301.00005'', e_title = ''A jet'',
                   e_links = [(''alternate'', ''http://arxiv.org/abs/2301.00005'')],
                   e_summary = ''We see a jet''\<rparr>"

text \<open>The rule \<open>nova-\<close>, without exclude terms and with two of them.\<close>

definition ex_nova :: Keyword where
  "ex_nova = \<lparr>name = ''nova'', matching = ''unique'', required = False,
              channel = Some ''#general'', excludes = []\<rparr>"

definition ex_nova_not :: Keyword where
  "ex_nova_not = \<lparr>name = ''nova'', matching = ''unique'', required = False,
                  channel = Some ''#general'', excludes = [''super'', ''observed'']\<rparr>"

text \<open>
  A store in which every reference holds the paper of the first example, and the
  requirement of its channel.
\<close>

definition ex_store :: store where
  "ex_store = (\<lambda>r. ex_paper)"

definition ex_channel_req :: channel_req where
  "ex_channel_req = [(''#general'', 1)]"

text \<open>
  A store with a paper matched into two channels at reference 0 and the paper of one
  channel elsewhere, and the requirements of the two channels.
\<close>

definition ex_paper_both :: Paper where
  "ex_paper_both = \<lparr>arxiv_id = ''2301.00020v1'', title = ''A nova with a jet'',
                    url = ''http://arxiv.org/abs/2301.00020v1'', p_keywords = [''jet'', ''nova''],
                    channels = [Some ''#general'', Some ''#novae''], posted_to_slack = False\<rparr>"

definition ex_store_both :: store where
  "ex_store_both = (\<lambda>r. if r = 0 then ex_paper_both else ex_paper)"

definition ex_channel_req_both :: channel_req where
  "ex_channel_req_both = [(''#general'', 1), (''#novae'', 1)]"

text \<open>Two queries that both return the paper of the first example.\<close>

definition ex_query_results :: "Paper list list" where
  "ex_query_results = [[ex_paper, ex_paper_both], [ex_paper]]"

text \<open>An entry about a nova.\<close>

definition ex_entry_nova :: Entry where
  "ex_entry_nova = \<lparr>e_id = ''http://arxiv.org/abs/2301.00030v1'', e_title = ''An outburst'',
                    e_links = [(''alternate'', ''http://arxiv.org/abs/2301.00030v1'')],
                    e_summary = ''A nova was observed''\<rparr>"

section \<open>Facts about the string operations\<close>

text \<open>
  \<open>n in s\<close> is the sublist relation of the library, and \<open>split\<close> with a separator
  never returns an empty list, so that its first and its last piece exist.
\<close>

lemma str_in_sublist: "str_in n s \<longleftrightarrow> sublist n s"
  by (induction s) (auto simp: sublist_Cons_right)

lemma split_sep_aux_not_Nil: "split_sep_aux sep cur s \<noteq> []"
  by (induction sep cur s rule: split_sep_aux.induct) auto

lemma split_sep_not_Nil: "split_sep sep s \<noteq> []"
  by (simp add: split_sep_def split_sep_aux_not_Nil)

section \<open>Required rules\<close>

lemma ex_entry_id: "last (split_sep ''/abs/'' (e_id ex_entry)) = ''2301.00015v2''"
  by code_simp

lemma ex_entry_title: "replace_nl (e_title ex_entry) = ''A jet''"
  by code_simp

lemma ex_get_match_jet: "get_match ''We see a jet'' ''A jet'' ex_jet = (True, False)"
  by code_simp

lemma ex_get_match_black_hole: "get_match ''We see a jet'' ''A jet'' ex_black_hole = (False, False)"
  by code_simp

lemma ex_match_loop:
  "match_loop ''We see a jet'' ''A jet'' ex_rules (True, []) = (False, [ex_jet])"
  unfolding ex_rules_def
  by (simp add: ex_get_match_jet ex_get_match_black_hole) (simp add: ex_black_hole_def)

lemma ex_paper_made:
  "mk_Paper ''2301.00015v2'' ''A jet'' ''http://arxiv.org/abs/2301.00015v2''
     (list_set (map name [ex_jet])) (map channel [ex_jet]) = ex_paper"
  by code_simp

text \<open>
  C1. The claim: if some required rule does not match the entry, no Paper is produced,
  whatever the other rules did and wherever the failing rule stands in the list. The
  code sets \<open>meets_requirements = False\<close> and leaves the loop, but never reads the
  variable again: the rules matched before the failing one still make a Paper. Here
  the required rule \<open>black hole\<close> does not match, it stands behind \<open>jet\<close>, and the
  entry yields a Paper with the keyword \<open>jet\<close>.
\<close>

theorem required_rule_failing_late_still_yields_paper:
  "required ex_black_hole \<and>
   get_match (e_summary ex_entry) (replace_nl (e_title ex_entry)) ex_black_hole = (False, False) \<and>
   fst (match_loop (e_summary ex_entry) (replace_nl (e_title ex_entry)) ex_rules (True, [])) = False \<and>
   do_query_entry decimal ex_rules None None ex_entry =
     Inr (Produced ex_paper, Some ''http://arxiv.org/abs/2301.00015v2'')"
proof -
  have s: "e_summary ex_entry = ''We see a jet''"
    by (simp add: ex_entry_def)
  have l: "links_loop (e_links ex_entry) None = Some ''http://arxiv.org/abs/2301.00015v2''"
    by (simp add: ex_entry_def)
  have r: "required ex_black_hole"
    by (simp add: ex_black_hole_def)
  have d: "do_query_entry decimal ex_rules None None ex_entry =
       Inr (Produced ex_paper, Some ''http://arxiv.org/abs/2301.00015v2'')"
    unfolding do_query_entry_def entry_body_def ex_entry_id ex_entry_title
    using ex_paper_made
    by (simp add: s l ex_match_loop Let_def list_set_def)
  show ?thesis
    using r d by (simp add: s ex_entry_title ex_get_match_black_hole ex_match_loop)
qed

section \<open>Exclude terms\<close>

lemma excluded_by_iff:
  "excluded_by abstract ttl k \<longleftrightarrow>
     (\<exists>n \<in> set (excludes k). sublist n (replace_nl (lower abstract)) \<or> sublist n (lower ttl))"
  by (simp add: excluded_by_def list_ex_iff str_in_sublist)

lemma get_match_excluded: "excluded_by abstract ttl k \<Longrightarrow> get_match abstract ttl k = (True, True)"
  by (simp add: get_match_def)

lemma get_match_not_excluded: "\<not> excluded_by abstract ttl k \<Longrightarrow> snd (get_match abstract ttl k) = False"
  by (simp add: get_match_def Let_def)

lemma match_loop_skips_excluded:
  assumes "get_match abstract ttl k = (True, True)"
  shows "match_loop abstract ttl (k # ks) st = match_loop abstract ttl ks st"
  using assms by (cases st) simp

lemma match_loop_without_excluded:
  assumes "get_match abstract ttl k = (True, True)"
  shows "match_loop abstract ttl (ks1 @ k # ks2) st = match_loop abstract ttl (ks1 @ ks2) st"
proof (induction ks1 arbitrary: st)
  case Nil
  show ?case using assms by (simp add: match_loop_skips_excluded)
next
  case (Cons x xs)
  obtain m res where st: "st = (m, res)" by (cases st)
  obtain a b where g: "get_match abstract ttl x = (a, b)" by (cases "get_match abstract ttl x")
  show ?case
    by (simp add: st g Cons.IH)
qed

lemma match_loop_results:
  assumes "x \<in> set (snd (match_loop abstract ttl ks (m, res)))"
  shows "x \<in> set res \<or> get_match abstract ttl x = (True, False)"
  using assms
proof (induction ks arbitrary: m res)
  case Nil
  then show ?case by simp
next
  case (Cons k ks)
  obtain a b where g: "get_match abstract ttl k = (a, b)" by (cases "get_match abstract ttl k")
  show ?case
    using Cons.prems Cons.IH [of m "res @ [k]"] Cons.IH [of m res] g
    by (cases a; cases b; cases "required k"; auto)
qed

text \<open>
  C6. If an exclude term of a rule occurs in the lower-cased abstract, with newlines
  as spaces, or in the lower-cased title, the rule contributes nothing to the entry:
  \<open>get_match\<close> reports it as excluded, the rule is not among the matched rules, and
  the loop body does with the entry exactly what it does when the rule is taken out
  of the list, whether or not the rule's own text occurs. The title is the one the
  loop works with, in which newlines are spaces as well.
\<close>

theorem excluded_rule_contributes_nothing:
  assumes "n \<in> set (excludes k)"
    and "sublist n (replace_nl (lower (e_summary e))) \<or> sublist n (lower (replace_nl (e_title e)))"
  shows "get_match (e_summary e) (replace_nl (e_title e)) k = (True, True) \<and>
         k \<notin> set (snd (match_loop (e_summary e) (replace_nl (e_title e)) (ks1 @ k # ks2) (True, []))) \<and>
         do_query_entry float (ks1 @ k # ks2) old_id u e = do_query_entry float (ks1 @ ks2) old_id u e"
proof -
  have ex: "excluded_by (e_summary e) (replace_nl (e_title e)) k"
    using assms by (auto simp: excluded_by_iff)
  then have g: "get_match (e_summary e) (replace_nl (e_title e)) k = (True, True)"
    by (rule get_match_excluded)
  have "k \<notin> set (snd (match_loop (e_summary e) (replace_nl (e_title e)) (ks1 @ k # ks2) (True, [])))"
    using match_loop_results [of k "e_summary e" "replace_nl (e_title e)" "ks1 @ k # ks2" True "[]"] g
    by auto
  moreover have "do_query_entry float (ks1 @ k # ks2) old_id u e = do_query_entry float (ks1 @ ks2) old_id u e"
    unfolding do_query_entry_def entry_body_def Let_def match_loop_without_excluded [OF g]
    by (rule refl)
  ultimately show ?thesis using g by simp
qed

lemma ex_entry_summary: "e_summary ex_entry = ''We see a jet''"
  by (simp add: ex_entry_def)

lemma ex_jet_in_abstract: "sublist ''jet'' (replace_nl (lower ''We see a jet''))"
  unfolding str_in_sublist [symmetric] by code_simp

theorem excluded_rule_contributes_nothing_witness:
  "''jet'' \<in> set (excludes ex_black_hole_not_jet) \<and>
   sublist ''jet'' (replace_nl (lower (e_summary ex_entry))) \<and>
   get_match (e_summary ex_entry) (replace_nl (e_title ex_entry)) ex_black_hole_not_jet = (True, True) \<and>
   do_query_entry decimal ([ex_jet] @ ex_black_hole_not_jet # []) None None ex_entry =
     do_query_entry decimal ([ex_jet] @ []) None None ex_entry"
proof -
  have a: "''jet'' \<in> set (excludes ex_black_hole_not_jet)"
    by (simp add: ex_black_hole_not_jet_def)
  have b: "sublist ''jet'' (replace_nl (lower (e_summary ex_entry)))"
    by (simp add: ex_entry_summary ex_jet_in_abstract)
  show ?thesis
    using excluded_rule_contributes_nothing
            [of "''jet''" ex_black_hole_not_jet ex_entry "[ex_jet]" "[]" decimal None None, OF a] a b
    by blast
qed

text \<open>
  C10. A required rule one of whose exclude terms occurs in the title or the abstract
  counts as matched in the required check: \<open>get_match\<close> returns matched and excluded,
  the loop does not stop at the rule, and it goes on with the flag
  \<open>meets_requirements\<close> and the matched rules as they were, so the rule adds no
  keyword and no channel. The witness is an entry that does not contain the text of
  its required rule and still yields a Paper.
\<close>

theorem excluded_required_rule_counts_as_matched:
  assumes "required k"
    and "n \<in> set (excludes k)"
    and "sublist n (replace_nl (lower abstract)) \<or> sublist n (lower ttl)"
  shows "fst (get_match abstract ttl k) \<and> snd (get_match abstract ttl k) \<and>
         match_loop abstract ttl (k # ks) (m, res) = match_loop abstract ttl ks (m, res)"
proof -
  have "excluded_by abstract ttl k"
    using assms(2,3) by (auto simp: excluded_by_iff)
  then have g: "get_match abstract ttl k = (True, True)"
    by (rule get_match_excluded)
  show ?thesis
    by (simp add: g)
qed

lemma ex_black_hole_absent:
  "\<not> sublist ''black hole'' (replace_nl (lower ''We see a jet'')) \<and>
   \<not> sublist ''black hole'' (lower ''A jet'')"
  unfolding str_in_sublist [symmetric] by code_simp

theorem excluded_required_rule_counts_as_matched_witness:
  "required ex_black_hole_not_jet \<and>
   ''jet'' \<in> set (excludes ex_black_hole_not_jet) \<and>
   sublist ''jet'' (replace_nl (lower ''We see a jet'')) \<and>
   \<not> sublist (name ex_black_hole_not_jet) (replace_nl (lower ''We see a jet'')) \<and>
   \<not> sublist (name ex_black_hole_not_jet) (lower ''A jet'') \<and>
   get_match ''We see a jet'' ''A jet'' ex_black_hole_not_jet = (True, True) \<and>
   match_loop ''We see a jet'' ''A jet'' ex_rules_excluded (True, []) = (True, [ex_jet]) \<and>
   do_query_entry decimal ex_rules_excluded None None ex_entry =
     Inr (Produced ex_paper, Some ''http://arxiv.org/abs/2301.00015v2'')"
proof -
  have r: "required ex_black_hole_not_jet"
    by (simp add: ex_black_hole_not_jet_def)
  have a: "''jet'' \<in> set (excludes ex_black_hole_not_jet)"
    by (simp add: ex_black_hole_not_jet_def)
  have b: "sublist ''jet'' (replace_nl (lower ''We see a jet'')) \<or> sublist ''jet'' (lower ''A jet'')"
    by (simp add: ex_jet_in_abstract)
  note t = excluded_required_rule_counts_as_matched
             [of ex_black_hole_not_jet "''jet''" "''We see a jet''" "''A jet''" "[ex_jet]" True "[]",
              OF r a b]
  have g: "get_match ''We see a jet'' ''A jet'' ex_black_hole_not_jet = (True, True)"
    using t by (simp add: prod_eq_iff)
  have m: "match_loop ''We see a jet'' ''A jet'' ex_rules_excluded (True, []) = (True, [ex_jet])"
    unfolding ex_rules_excluded_def using t by (simp add: ex_get_match_jet)
  have nm: "name ex_black_hole_not_jet = ''black hole''"
    by (simp add: ex_black_hole_not_jet_def)
  have l: "links_loop (e_links ex_entry) None = Some ''http://arxiv.org/abs/2301.00015v2''"
    by (simp add: ex_entry_def)
  have d: "do_query_entry decimal ex_rules_excluded None None ex_entry =
       Inr (Produced ex_paper, Some ''http://arxiv.org/abs/2301.00015v2'')"
    unfolding do_query_entry_def entry_body_def ex_entry_id ex_entry_title
    using ex_paper_made
    by (simp add: ex_entry_summary l m Let_def list_set_def)
  show ?thesis
    using r a g m d ex_black_hole_absent by (simp add: nm ex_jet_in_abstract)
qed

section \<open>The resume check\<close>

lemma split_sep_aux_v_hd:
  "hd (split_sep_aux ''v'' cur s) = cur @ takeWhile (\<lambda>c. c \<noteq> CHR ''v'') s"
  by (induction s arbitrary: cur) auto

lemma strip_version_takeWhile: "strip_version x = takeWhile (\<lambda>c. c \<noteq> CHR ''v'') x"
  by (simp add: strip_version_def split_sep_def split_sep_aux_v_hd)

lemma entry_body_skipped_iff:
  "entry_body float kwds (Some old) aid ttl u e = Inr (Skipped, u') \<longleftrightarrow>
     u' = u \<and> (\<exists>a b. float (strip_version aid) = Some a \<and> float (strip_version old) = Some b \<and> a < b)"
  by (auto simp: entry_body_def Let_def split: option.splits bool.splits if_splits)

lemma ex_entry_old_id: "last (split_sep ''/abs/'' (e_id ex_entry_old)) = ''2301.00005''"
  by code_simp

lemma decimal_marker: "decimal (strip_version ''2301.00010'') = Some (230100010 / 100000)"
  by (simp add: strip_version_takeWhile decimal_def digit_val_def)

lemma decimal_older: "decimal (strip_version ''2301.00005'') = Some (230100005 / 100000)"
  by (simp add: strip_version_takeWhile decimal_def digit_val_def)

lemma decimal_newer: "decimal (strip_version ''2301.00015v2'') = Some (230100015 / 100000)"
  by (simp add: strip_version_takeWhile decimal_def digit_val_def)

text \<open>
  C7. With a prior resume marker \<open>old\<close>, the loop body skips an entry if and only if
  the number read from its identifier, cut before the first \<open>v\<close>, is strictly less
  than the number read from the marker, cut the same way. Nothing else is done with a
  skipped entry: the outcome does not depend on the rules, and \<open>url\<close> stays as it
  was. The numbers are what \<open>float\<close> returns, whatever it is; where it raises, the
  entry is not skipped. With the marker 2301.00010 and identifiers read as decimal
  numbers, the entry 2301.00005 is skipped and the entry 2301.00015v2 is not.
\<close>

theorem resume_check_skips_iff_older:
  "(do_query_entry float kwds (Some old) u e = Inr (Skipped, u) \<longleftrightarrow>
      (\<exists>a b. float (takeWhile (\<lambda>c. c \<noteq> CHR ''v'') (last (split_sep ''/abs/'' (e_id e)))) = Some a \<and>
             float (takeWhile (\<lambda>c. c \<noteq> CHR ''v'') old) = Some b \<and> a < b)) \<and>
   do_query_entry decimal kwds (Some ''2301.00010'') u ex_entry_old = Inr (Skipped, u) \<and>
   do_query_entry decimal kwds (Some ''2301.00010'') u ex_entry \<noteq> Inr (Skipped, u)"
proof -
  have 1: "do_query_entry float kwds (Some old) u e = Inr (Skipped, u) \<longleftrightarrow>
      (\<exists>a b. float (takeWhile (\<lambda>c. c \<noteq> CHR ''v'') (last (split_sep ''/abs/'' (e_id e)))) = Some a \<and>
             float (takeWhile (\<lambda>c. c \<noteq> CHR ''v'') old) = Some b \<and> a < b)"
    by (simp add: do_query_entry_def entry_body_skipped_iff strip_version_takeWhile)
  have 2: "do_query_entry decimal kwds (Some ''2301.00010'') u ex_entry_old = Inr (Skipped, u)"
    by (simp add: do_query_entry_def entry_body_def ex_entry_old_id decimal_marker decimal_older)
  have 3: "do_query_entry decimal kwds (Some ''2301.00010'') u ex_entry \<noteq> Inr (Skipped, u)"
    by (simp add: do_query_entry_def entry_body_def ex_entry_id decimal_marker decimal_newer Let_def
          split: option.splits)
  show ?thesis
    using 1 2 3 by blast
qed

section \<open>The keyword suffixes\<close>

text \<open>
  C4. The claim: only a trailing \<open>-\<close> and a trailing \<open>!\<close> are stripped, and a keyword
  without these suffixes is stored as written. The code looks for \<open>-\<close> and \<open>!\<close> in
  the last two characters, to allow both suffixes at once, and then cuts the last
  character whichever it is. For the line \<open>b-v\<close> the hyphen is the last but one
  character: the rule is stored as \<open>b-\<close> in unique mode.
\<close>

theorem inner_hyphen_cuts_last_character:
  "line_kind (rstrip (lower (''b-v'' @ [CHR 0x0A]))) = KeywordLine \<and>
   parse_keyword_line (Some ''#general'') (''b-v'' @ [CHR 0x0A]) =
     Inr \<lparr>name = ''b-'', matching = ''unique'', required = False,
          channel = Some ''#general'', excludes = []\<rparr>"
  by code_simp

text \<open>The suffixes as they are meant: each alone and both, in either order.\<close>

lemma suffixes_stripped:
  "parse_keyword_line c ''nova-'' = Inr \<lparr>name = ''nova'', matching = ''unique'', required = False, channel = c, excludes = []\<rparr>"
  "parse_keyword_line c ''nova!'' = Inr \<lparr>name = ''nova'', matching = ''any'', required = True, channel = c, excludes = []\<rparr>"
  "parse_keyword_line c ''nova-!'' = Inr \<lparr>name = ''nova'', matching = ''unique'', required = True, channel = c, excludes = []\<rparr>"
  "parse_keyword_line c ''nova!-'' = Inr \<lparr>name = ''nova'', matching = ''unique'', required = True, channel = c, excludes = []\<rparr>"
  by code_simp+

section \<open>The channel filter\<close>

text \<open>
  C3. The claim: with an empty channel-requirement mapping the filter returns its
  input. The code returns the input for \<open>channel_req is None\<close> only; an empty
  dictionary is not \<open>None\<close>, the loop over its channels runs no pass, and the result
  is the empty list. The amended statement: without a mapping the filter returns the
  list and the papers as they are; with an empty mapping it returns the empty list,
  after clearing the flags.
\<close>

theorem filter_identity_without_mapping_only:
  "filter_keyword_requires h papers None = (h, papers) \<and>
   filter_keyword_requires h papers (Some []) = (reset_flags papers h, [])"
  by (simp add: filter_keyword_requires_def)

theorem filter_empty_mapping_not_identity:
  "snd (filter_keyword_requires ex_store [0] (Some [])) \<noteq> [0]"
  by (simp add: filter_keyword_requires_def)

text \<open>What one pass of the filter does to the store and to the list.\<close>

lemma reset_flags_fields:
  "channels (reset_flags ps h p) = channels (h p) \<and>
   p_keywords (reset_flags ps h p) = p_keywords (h p)"
  by (induction ps arbitrary: h) auto

lemma reset_flags_qualifies: "qualifies (reset_flags ps h p) cn = qualifies (h p) cn"
  by (simp add: qualifies_def reset_flags_fields)

lemma reset_flags_keeps_cleared:
  "\<not> posted_to_slack (h p) \<Longrightarrow> \<not> posted_to_slack (reset_flags ps h p)"
  by (induction ps arbitrary: h) auto

lemma reset_flags_clears: "p \<in> set ps \<Longrightarrow> \<not> posted_to_slack (reset_flags ps h p)"
proof (induction ps arbitrary: h)
  case Nil
  then show ?case by simp
next
  case (Cons q qs)
  show ?case
  proof (cases "p = q")
    case True
    then show ?thesis by (simp add: reset_flags_keeps_cleared)
  next
    case False
    then show ?thesis using Cons by simp
  qed
qed

lemma filter_channel_acc:
  "filter_channel c n ps (h, out @ acc) =
     (case filter_channel c n ps (h, acc) of (h', r) \<Rightarrow> (h', out @ r))"
  by (induction ps arbitrary: h acc) auto

lemma filter_channel_from_Nil:
  "filter_channel c n ps (h, out) =
     (case filter_channel c n ps (h, []) of (h', g) \<Rightarrow> (h', out @ g))"
  using filter_channel_acc [of c n ps h out "[]"] by simp



lemma filter_channel_pass:
  assumes "filter_channel c n ps (h, []) = (h', g)"
  shows "(\<forall>p cn. qualifies (h' p) cn = qualifies (h p) cn) \<and>
         (\<forall>p. posted_to_slack (h' p) \<longleftrightarrow>
               posted_to_slack (h p) \<or> (p \<in> set ps \<and> qualifies (h p) (c, n))) \<and>
         distinct g \<and>
         set g = {p \<in> set ps. \<not> posted_to_slack (h p) \<and> qualifies (h p) (c, n)}"
  using assms
proof (induction ps arbitrary: h g)
  case Nil
  then show ?case by simp
next
  case (Cons q qs)
  show ?case
  proof (cases "\<not> posted_to_slack (h q) \<and> qualifies (h q) (c, n)")
    case False
    then have "filter_channel c n qs (h, []) = (h', g)"
      using Cons.prems by (auto simp: qualifies_def split: if_splits)
    from Cons.IH [OF this] have
      a: "\<forall>p cn. qualifies (h' p) cn = qualifies (h p) cn" and
      b: "\<forall>p. posted_to_slack (h' p) \<longleftrightarrow> posted_to_slack (h p) \<or> (p \<in> set qs \<and> qualifies (h p) (c, n))" and
      c: "distinct g" and
      d: "set g = {p \<in> set qs. \<not> posted_to_slack (h p) \<and> qualifies (h p) (c, n)}"
      by blast+
    have b': "\<forall>p. posted_to_slack (h' p) \<longleftrightarrow>
               posted_to_slack (h p) \<or> (p \<in> set (q # qs) \<and> qualifies (h p) (c, n))"
      using b False by auto
    have d': "set g = {p \<in> set (q # qs). \<not> posted_to_slack (h p) \<and> qualifies (h p) (c, n)}"
      using d False by auto
    show ?thesis
      using a b' c d' by blast
  next
    case True
    define h1 where "h1 = h(q := (h q)\<lparr>posted_to_slack := True\<rparr>)"
    obtain h2 g1 where r: "filter_channel c n qs (h1, []) = (h2, g1)"
      by (cases "filter_channel c n qs (h1, [])")
    have f: "filter_channel c n qs (h1, [q]) = (h2, q # g1)"
      using filter_channel_acc [of c n qs h1 "[q]" "[]"] r by simp
    have "filter_channel c n (q # qs) (h, []) = filter_channel c n qs (h1, [q])"
      using True by (simp add: qualifies_def h1_def)
    then have hg: "h' = h2" "g = q # g1"
      using Cons.prems f by simp_all
    have q1: "\<And>p cn. qualifies (h1 p) cn = qualifies (h p) cn"
      by (simp add: h1_def qualifies_def)
    have p1: "\<And>p. posted_to_slack (h1 p) \<longleftrightarrow> posted_to_slack (h p) \<or> p = q"
      by (simp add: h1_def)
    have r': "filter_channel c n qs (h1, []) = (h', g1)"
      using r hg by simp
    from Cons.IH [OF r'] have
      a1: "\<forall>p cn. qualifies (h' p) cn = qualifies (h1 p) cn" and
      b1: "\<forall>p. posted_to_slack (h' p) \<longleftrightarrow> posted_to_slack (h1 p) \<or> (p \<in> set qs \<and> qualifies (h1 p) (c, n))" and
      c1: "distinct g1" and
      d1: "set g1 = {p \<in> set qs. \<not> posted_to_slack (h1 p) \<and> qualifies (h1 p) (c, n)}"
      by blast+
    have a: "\<forall>p cn. qualifies (h' p) cn = qualifies (h p) cn"
      using a1 q1 hg by simp
    have b: "\<forall>p. posted_to_slack (h' p) \<longleftrightarrow>
               posted_to_slack (h p) \<or> (p \<in> set (q # qs) \<and> qualifies (h p) (c, n))"
      using b1 q1 p1 True hg by auto
    have qg: "q \<notin> set g1"
      using d1 p1 by simp
    have c: "distinct g"
      using c1 qg hg by simp
    have d: "set g = {p \<in> set (q # qs). \<not> posted_to_slack (h p) \<and> qualifies (h p) (c, n)}"
      using d1 q1 p1 True hg by auto
    show ?thesis
      using a b c d by blast
  qed
qed


text \<open>The passes of all channels.\<close>

lemma filter_channels_groups:
  "snd (filter_channels cs ps (h, out)) = out @ concat (filter_groups cs ps h)"
proof (induction cs arbitrary: h out)
  case Nil
  show ?case by simp
next
  case (Cons cn cs)
  obtain c n where cn: "cn = (c, n)" by (cases cn)
  obtain h1 g where r: "filter_channel c n ps (h, []) = (h1, g)"
    by (cases "filter_channel c n ps (h, [])")
  have "filter_channel c n ps (h, out) = (h1, out @ g)"
    using filter_channel_from_Nil [of c n ps h out] r by simp
  then show ?case
    by (simp add: cn r Cons.IH)
qed

lemma length_filter_groups: "length (filter_groups cs ps h) = length cs"
proof (induction cs arbitrary: h)
  case Nil
  show ?case by simp
next
  case (Cons cn cs)
  obtain c n where cn: "cn = (c, n)" by (cases cn)
  show ?case
    by (simp add: cn Cons.IH split: prod.splits)
qed

lemma filter_groups_nth:
  assumes "i < length cs"
  shows "set (filter_groups cs ps h ! i) =
           {p \<in> set ps. \<not> posted_to_slack (h p) \<and> qualifies (h p) (cs ! i) \<and>
                         (\<forall>j<i. \<not> qualifies (h p) (cs ! j))}"
  using assms
proof (induction cs arbitrary: h i)
  case Nil
  then show ?case by simp
next
  case (Cons cn cs)
  obtain c n where cn: "cn = (c, n)" by (cases cn)
  obtain h1 g where r: "filter_channel c n ps (h, []) = (h1, g)"
    by (cases "filter_channel c n ps (h, [])")
  from filter_channel_pass [OF r] have
    a: "\<And>p x. qualifies (h1 p) x = qualifies (h p) x" and
    b: "\<And>p. posted_to_slack (h1 p) \<longleftrightarrow> posted_to_slack (h p) \<or> (p \<in> set ps \<and> qualifies (h p) (c, n))" and
    d: "set g = {p \<in> set ps. \<not> posted_to_slack (h p) \<and> qualifies (h p) (c, n)}"
    by blast+
  have fg: "filter_groups (cn # cs) ps h = g # filter_groups cs ps h1"
    by (simp add: cn r)
  show ?case
  proof (cases i)
    case 0
    then show ?thesis unfolding fg by (simp add: d cn)
  next
    case (Suc k)
    then have k: "k < length cs" using Cons.prems by simp
    have "set (filter_groups (cn # cs) ps h ! i) = set (filter_groups cs ps h1 ! k)"
      unfolding fg by (simp add: Suc)
    also have "\<dots> = {p \<in> set ps. \<not> posted_to_slack (h1 p) \<and> qualifies (h1 p) (cs ! k) \<and>
                         (\<forall>j<k. \<not> qualifies (h1 p) (cs ! j))}"
      by (rule Cons.IH [OF k])
    also have "\<dots> = {p \<in> set ps. \<not> posted_to_slack (h p) \<and> qualifies (h p) ((cn # cs) ! i) \<and>
                         (\<forall>j<i. \<not> qualifies (h p) ((cn # cs) ! j))}"
      by (auto simp: a b Suc cn All_less_Suc2)
    finally show ?thesis .
  qed
qed

lemma filter_groups_distinct:
  "distinct (concat (filter_groups cs ps h)) \<and>
   (\<forall>p \<in> set (concat (filter_groups cs ps h)). \<not> posted_to_slack (h p))"
proof (induction cs arbitrary: h)
  case Nil
  show ?case by simp
next
  case (Cons cn cs)
  obtain c n where cn: "cn = (c, n)" by (cases cn)
  obtain h1 g where r: "filter_channel c n ps (h, []) = (h1, g)"
    by (cases "filter_channel c n ps (h, [])")
  from filter_channel_pass [OF r] have
    b: "\<And>p. posted_to_slack (h1 p) \<longleftrightarrow> posted_to_slack (h p) \<or> (p \<in> set ps \<and> qualifies (h p) (c, n))" and
    c: "distinct g" and
    d: "set g = {p \<in> set ps. \<not> posted_to_slack (h p) \<and> qualifies (h p) (c, n)}"
    by blast+
  have fg: "filter_groups (cn # cs) ps h = g # filter_groups cs ps h1"
    by (simp add: cn r)
  have ih1: "distinct (concat (filter_groups cs ps h1))"
    and ih2: "\<And>p. p \<in> set (concat (filter_groups cs ps h1)) \<Longrightarrow> \<not> posted_to_slack (h1 p)"
    using Cons.IH [of h1] by blast+
  have disj: "set g \<inter> set (concat (filter_groups cs ps h1)) = {}"
    using ih2 b d by blast
  have "distinct (g @ concat (filter_groups cs ps h1))"
    using c ih1 disj by simp
  moreover have "\<forall>p \<in> set (g @ concat (filter_groups cs ps h1)). \<not> posted_to_slack (h p)"
    using ih2 b d by auto
  ultimately show ?case
    unfolding fg by simp
qed


text \<open>
  C8. In one pass of the filter every paper is selected at most once: the list that
  the filter returns has no reference twice. It is the concatenation of what the
  passes of the channels append, in the order of the channels, and the pass of the
  \<open>i\<close>-th channel appends exactly the papers of the input that pass the test of
  that channel and of no channel before it: a paper that qualifies for two channels
  goes to the first of them, and a later channel does not take a paper that is
  already marked.
\<close>

theorem channel_filter_selects_each_paper_once:
  "distinct (snd (filter_keyword_requires h papers (Some creq))) \<and>
   snd (filter_keyword_requires h papers (Some creq)) =
     concat (filter_groups creq papers (reset_flags papers h)) \<and>
   length (filter_groups creq papers (reset_flags papers h)) = length creq \<and>
   (\<forall>i<length creq.
      set (filter_groups creq papers (reset_flags papers h) ! i) =
        {p \<in> set papers. qualifies (h p) (creq ! i) \<and> (\<forall>j<i. \<not> qualifies (h p) (creq ! j))})"
proof -
  let ?h0 = "reset_flags papers h"
  have e: "snd (filter_keyword_requires h papers (Some creq)) = concat (filter_groups creq papers ?h0)"
    using filter_channels_groups [of creq papers ?h0 "[]"]
    by (simp add: filter_keyword_requires_def)
  have d: "distinct (concat (filter_groups creq papers ?h0))"
    using filter_groups_distinct [of creq papers ?h0] by blast
  have g: "set (filter_groups creq papers ?h0 ! i) =
        {p \<in> set papers. qualifies (h p) (creq ! i) \<and> (\<forall>j<i. \<not> qualifies (h p) (creq ! j))}"
    if "i < length creq" for i
    using filter_groups_nth [OF that, of papers ?h0]
    by (auto simp: reset_flags_qualifies reset_flags_clears)
  show ?thesis
    using e d g by (simp add: length_filter_groups)
qed

lemma ex_both_qualifies:
  "qualifies (ex_store_both 0) (ex_channel_req_both ! 0) \<and>
   qualifies (ex_store_both 0) (ex_channel_req_both ! 1)"
  by (simp add: qualifies_def ex_store_both_def ex_paper_both_def ex_channel_req_both_def)

theorem channel_filter_selects_each_paper_once_witness:
  "(1::nat) < length ex_channel_req_both \<and>
   qualifies (ex_store_both 0) (ex_channel_req_both ! 0) \<and>
   qualifies (ex_store_both 0) (ex_channel_req_both ! 1) \<and>
   0 \<in> set (filter_groups ex_channel_req_both [0, 1] (reset_flags [0, 1] ex_store_both) ! 0) \<and>
   0 \<notin> set (filter_groups ex_channel_req_both [0, 1] (reset_flags [0, 1] ex_store_both) ! 1) \<and>
   distinct (snd (filter_keyword_requires ex_store_both [0, 1] (Some ex_channel_req_both)))"
proof -
  have l: "length ex_channel_req_both = 2"
    by (simp add: ex_channel_req_both_def)
  note t = channel_filter_selects_each_paper_once [of ex_store_both "[0, 1]" ex_channel_req_both]
  have g0: "set (filter_groups ex_channel_req_both [0, 1] (reset_flags [0, 1] ex_store_both) ! 0) =
        {p \<in> set [0, 1]. qualifies (ex_store_both p) (ex_channel_req_both ! 0) \<and>
           (\<forall>j<0. \<not> qualifies (ex_store_both p) (ex_channel_req_both ! j))}"
    using t l by simp
  have g1: "set (filter_groups ex_channel_req_both [0, 1] (reset_flags [0, 1] ex_store_both) ! 1) =
        {p \<in> set [0, 1]. qualifies (ex_store_both p) (ex_channel_req_both ! 1) \<and>
           (\<forall>j<1. \<not> qualifies (ex_store_both p) (ex_channel_req_both ! j))}"
    using t l by simp
  have d: "distinct (snd (filter_keyword_requires ex_store_both [0, 1] (Some ex_channel_req_both)))"
    using t by blast
  have in0: "0 \<in> set (filter_groups ex_channel_req_both [0, 1] (reset_flags [0, 1] ex_store_both) ! 0)"
    unfolding g0 using ex_both_qualifies by simp
  have out1: "0 \<notin> set (filter_groups ex_channel_req_both [0, 1] (reset_flags [0, 1] ex_store_both) ! 1)"
    unfolding g1 using ex_both_qualifies by simp
  show ?thesis
    using l d in0 out1 ex_both_qualifies by simp
qed

section \<open>The Slack post after the filter\<close>

lemma filter_channel_marks:
  assumes "filter_channel c n ps (h, out) = (h', out')"
    and "\<forall>p \<in> set out. posted_to_slack (h p)"
  shows "\<forall>p \<in> set out'. posted_to_slack (h' p)"
proof -
  obtain h1 g where r: "filter_channel c n ps (h, []) = (h1, g)"
    by (cases "filter_channel c n ps (h, [])")
  have e: "h' = h1" "out' = out @ g"
    using filter_channel_from_Nil [of c n ps h out] r assms(1) by simp_all
  from filter_channel_pass [OF r] have
    b: "\<And>p. posted_to_slack (h1 p) \<longleftrightarrow> posted_to_slack (h p) \<or> (p \<in> set ps \<and> qualifies (h p) (c, n))" and
    d: "set g = {p \<in> set ps. \<not> posted_to_slack (h p) \<and> qualifies (h p) (c, n)}"
    by blast+
  show ?thesis
    using assms(2) b d by (auto simp: e)
qed

lemma filter_channels_marks:
  assumes "filter_channels cs ps (h, out) = (h', out')"
    and "\<forall>p \<in> set out. posted_to_slack (h p)"
  shows "\<forall>p \<in> set out'. posted_to_slack (h' p)"
  using assms
proof (induction cs arbitrary: h out)
  case Nil
  then show ?case by simp
next
  case (Cons cn cs)
  obtain c n where cn: "cn = (c, n)" by (cases cn)
  obtain h1 out1 where r: "filter_channel c n ps (h, out) = (h1, out1)"
    by (cases "filter_channel c n ps (h, out)")
  have m: "\<forall>p \<in> set out1. posted_to_slack (h1 p)"
    using filter_channel_marks [OF r Cons.prems(2)] .
  have "filter_channels cs ps (h1, out1) = (h', out')"
    using Cons.prems(1) by (simp add: cn r)
  from Cons.IH [OF this m] show ?case .
qed

lemma slack_channel_all_posted:
  assumes "\<forall>p \<in> set ps. posted_to_slack (h p)"
  shows "slack_channel c n ps (h, body) = (h, body)"
  using assms by (induction ps) auto

lemma slack_post_all_posted:
  assumes "\<forall>p \<in> set ps. posted_to_slack (h p)"
  shows "slack_post ps cs username icon_emoji (Some hook) h =
           (h, map (\<lambda>cn. Posted hook \<lparr>pl_channel = fst cn, pl_username = username,
                                       pl_icon_emoji = icon_emoji, pl_text = []\<rparr>) cs)"
proof (induction cs)
  case Nil
  show ?case by simp
next
  case (Cons cn cs)
  obtain c n where cn: "cn = (c, n)" by (cases cn)
  show ?case
    by (simp add: cn slack_channel_all_posted [OF assms] Cons.IH)
qed

text \<open>
  After the filter every paper of the filtered list is marked, so \<open>slack_post\<close> takes
  none of them: the text of every payload is empty.
\<close>

lemma filter_then_post_texts_empty:
  "snd (filter_then_post h papers creq username icon_emoji (Some hook)) =
     map (\<lambda>cn. Posted hook \<lparr>pl_channel = fst cn, pl_username = username,
                              pl_icon_emoji = icon_emoji, pl_text = []\<rparr>) creq"
proof -
  obtain h' filtered where r: "filter_channels creq papers (reset_flags papers h, []) = (h', filtered)"
    by (cases "filter_channels creq papers (reset_flags papers h, [])")
  have "\<forall>p \<in> set filtered. posted_to_slack (h' p)"
    using filter_channels_marks [OF r] by simp
  then show ?thesis
    by (simp add: filter_then_post_def filter_keyword_requires_def r slack_post_all_posted)
qed

text \<open>
  C2. The claim: the payload of each channel, built after the filter, contains exactly
  the papers that the filter selected for the channel. The filter marks every paper
  it selects with \<open>posted_to_slack = 1\<close>, and \<open>slack_post\<close>, which gets the filtered
  list, takes only papers that are not marked. Here the filter selects the paper at
  reference 0 for \<open>#general\<close>, and the text of the payload for \<open>#general\<close> is
  empty.
\<close>

theorem selected_paper_missing_from_payload:
  "qualifies (ex_store 0) (''#general'', 1) \<and>
   filter_then_post ex_store [0] ex_channel_req None None (Some ''https://hooks.slack.com/services/T'') =
     ([0], [Posted ''https://hooks.slack.com/services/T''
              \<lparr>pl_channel = ''#general'', pl_username = None, pl_icon_emoji = None, pl_text = ''''\<rparr>])"
  by (simp add: filter_then_post_def filter_keyword_requires_def qualifies_def
        ex_store_def ex_channel_req_def ex_paper_def)

section \<open>The aggregation\<close>

lemma paper_lt_key: "paper_lt a b \<longleftrightarrow> paper_key a < paper_key b"
  by (auto simp: paper_lt_def paper_key_def)

lemma paper_set_ids:
  "set (map arxiv_id (paper_set seen ps)) = set (map arxiv_id seen) \<union> set (map arxiv_id ps)"
  by (induction ps arbitrary: seen) auto

lemma paper_set_distinct:
  "distinct (map arxiv_id seen) \<Longrightarrow> distinct (map arxiv_id (paper_set seen ps))"
  by (induction ps arbitrary: seen) auto

lemma paper_set_subset: "set (paper_set seen ps) \<subseteq> set seen \<union> set ps"
proof (induction ps arbitrary: seen)
  case Nil
  show ?case by simp
next
  case (Cons p ps)
  show ?case
    using Cons.IH [of seen] Cons.IH [of "seen @ [p]"] by auto
qed

lemma mset_sort_reverse: "mset (sort_reverse xs) = mset xs"
  by (simp add: sort_reverse_def)

text \<open>
  C9. Equality and hash of a Paper are those of its identifier, so the set built from
  the papers of all the queries keeps one paper for each identifier, and the list
  that \<open>search_arxiv\<close> returns holds every identifier that some query returned exactly
  once: its identifiers are distinct, and they are the identifiers of the queries'
  papers, whatever the order in which the set is listed before the sort.
\<close>

theorem aggregated_ids_appear_once:
  assumes "mset (set_order (paper_set [] (concat query_results))) =
           mset (paper_set [] (concat query_results))"
  shows "distinct (map arxiv_id (search_arxiv_papers set_order query_results)) \<and>
         set (map arxiv_id (search_arxiv_papers set_order query_results)) =
           set (map arxiv_id (concat query_results)) \<and>
         set (search_arxiv_papers set_order query_results) \<subseteq> set (concat query_results)"
proof -
  let ?s = "paper_set [] (concat query_results)"
  have m: "mset (search_arxiv_papers set_order query_results) = mset ?s"
    using assms by (simp add: search_arxiv_papers_def mset_sort_reverse)
  then have mm: "mset (map arxiv_id (search_arxiv_papers set_order query_results)) =
                 mset (map arxiv_id ?s)"
    by simp
  have d: "distinct (map arxiv_id ?s)"
    by (rule paper_set_distinct) simp
  have 1: "distinct (map arxiv_id (search_arxiv_papers set_order query_results))"
    using mset_eq_imp_distinct_iff [OF mm] d by simp
  have 2: "set (map arxiv_id (search_arxiv_papers set_order query_results)) =
           set (map arxiv_id (concat query_results))"
    using mset_eq_setD [OF mm] paper_set_ids [of "[]" "concat query_results"] by simp
  have 3: "set (search_arxiv_papers set_order query_results) \<subseteq> set (concat query_results)"
    using mset_eq_setD [OF m] paper_set_subset [of "[]" "concat query_results"] by simp
  show ?thesis
    using 1 2 3 by blast
qed

theorem aggregated_ids_appear_once_witness:
  "mset (rev (paper_set [] (concat ex_query_results))) = mset (paper_set [] (concat ex_query_results)) \<and>
   distinct (map arxiv_id (search_arxiv_papers rev ex_query_results)) \<and>
   set (map arxiv_id (search_arxiv_papers rev ex_query_results)) = {''2301.00015v2'', ''2301.00020v1''}"
proof -
  have h: "mset (rev (paper_set [] (concat ex_query_results))) = mset (paper_set [] (concat ex_query_results))"
    by simp
  have i: "set (map arxiv_id (concat ex_query_results)) = {''2301.00015v2'', ''2301.00020v1''}"
    by (auto simp: ex_query_results_def ex_paper_def ex_paper_both_def)
  show ?thesis
    using aggregated_ids_appear_once [of rev ex_query_results, OF h] h i by simp
qed

section \<open>Exact-word matching\<close>

lemma lower_char_punctuation: "lower_char c \<in> set punctuation \<longleftrightarrow> c \<in> set punctuation"
  by (auto simp: lower_char_def punctuation_def split: option.splits dest!: map_of_SomeD)

lemma lower_strip_chars:
  "lower (strip_chars punctuation t) = strip_chars punctuation (lower t)"
proof -
  have c: "(\<lambda>c. c \<in> set punctuation) \<circ> lower_char = (\<lambda>c. c \<in> set punctuation)"
    by (rule ext) (simp add: lower_char_punctuation)
  have d: "dropWhile (\<lambda>c. c \<in> set punctuation) (map lower_char xs) =
           map lower_char (dropWhile (\<lambda>c. c \<in> set punctuation) xs)" for xs
    by (simp add: dropWhile_map c)
  have "strip_chars punctuation (map lower_char t) =
        rev (dropWhile (\<lambda>c. c \<in> set punctuation)
              (map lower_char (rev (dropWhile (\<lambda>c. c \<in> set punctuation) t))))"
    by (simp only: strip_chars_def d rev_map)
  also have "\<dots> = map lower_char (strip_chars punctuation t)"
    by (simp only: strip_chars_def d rev_map)
  finally show ?thesis
    by (simp add: lower_def)
qed

lemma is_space_replace_nl: "is_space (if c = CHR 0x0A then CHR 0x20 else c) = is_space c"
  by (simp add: is_space_def)

lemma split_ws_aux_replace_nl: "split_ws_aux cur (replace_nl s) = split_ws_aux cur s"
proof (induction s arbitrary: cur)
  case Nil
  show ?case by (simp add: replace_nl_def)
next
  case (Cons c s)
  have ih: "\<And>cur. split_ws_aux cur (map (\<lambda>c. if c = CHR 0x0A then CHR 0x20 else c) s) = split_ws_aux cur s"
    using Cons.IH by (simp add: replace_nl_def)
  show ?case
  proof (cases "c = CHR 0x0A")
    case True
    then show ?thesis by (simp add: replace_nl_def ih is_space_def)
  next
    case False
    then show ?thesis by (simp add: replace_nl_def ih)
  qed
qed

lemma spec_tokens_replace_nl: "spec_tokens (replace_nl s) = spec_tokens s"
  by (simp add: spec_tokens_def split_ws_def split_ws_aux_replace_nl)

lemma spec_tokens_code:
  "spec_tokens text =
     map (\<lambda>l. strip_chars [CHR 0x22, CHR '':'', CHR ''.'', CHR '','', CHR ''!'', CHR ''?''] (lower l))
       (split_ws text)"
  using lower_strip_chars by (simp add: spec_tokens_def punctuation_def)

lemma get_match_unique:
  assumes "matching k = ''unique''" and "\<not> excluded_by abstract ttl k"
  shows "get_match abstract ttl k = (spec_exact_word (name k) abstract ttl, False)"
  using assms by (auto simp: get_match_def spec_exact_word_def spec_tokens_code Let_def)


lemma ex_nova_matches:
  "get_match ''a nova was observed'' [] ex_nova = (True, False)"
  "get_match ''supernova explosion'' [] ex_nova = (False, False)"
  by code_simp+

text \<open>
  C5. The claim: for every rule in unique mode and every entry, the rule matches if
  and only if its text equals a token of the title or the abstract, stripped of the
  surrounding punctuation and lower-cased. \<open>get_match\<close> looks at the exclude terms
  first and reports a rule with an exclude term in the entry as matched and excluded
  without comparing any token, so the equivalence holds for the rules none of whose
  exclude terms occurs in the entry, among them every rule without exclude terms:
  for these the rule is reported as matched, and not excluded, exactly when its text
  is one of the tokens. The rule \<open>nova\<close> does not match \<open>supernova explosion\<close> and
  matches \<open>a nova was observed\<close>.
\<close>

theorem exact_word_matches_iff_token:
  assumes "matching k = ''unique''"
    and "\<forall>n \<in> set (excludes k).
           \<not> sublist n (replace_nl (lower (e_summary e))) \<and>
           \<not> sublist n (lower (replace_nl (e_title e)))"
  shows "get_match (e_summary e) (replace_nl (e_title e)) k =
           (spec_exact_word (name k) (e_summary e) (e_title e), False) \<and>
         get_match ''supernova explosion'' [] ex_nova = (False, False) \<and>
         get_match ''a nova was observed'' [] ex_nova = (True, False)"
proof -
  have "\<not> excluded_by (e_summary e) (replace_nl (e_title e)) k"
    using assms(2) by (auto simp: excluded_by_iff)
  from get_match_unique [OF assms(1) this]
  have "get_match (e_summary e) (replace_nl (e_title e)) k =
          (spec_exact_word (name k) (e_summary e) (e_title e), False)"
    by (simp add: spec_exact_word_def spec_tokens_replace_nl)
  then show ?thesis
    by (simp add: ex_nova_matches)
qed

lemma ex_entry_nova_token: "spec_exact_word ''nova'' ''A nova was observed'' ''An outburst''"
  by code_simp

theorem exact_word_matches_iff_token_witness:
  "matching ex_nova = ''unique'' \<and>
   excludes ex_nova = [] \<and>
   spec_exact_word (name ex_nova) (e_summary ex_entry_nova) (e_title ex_entry_nova) \<and>
   get_match (e_summary ex_entry_nova) (replace_nl (e_title ex_entry_nova)) ex_nova = (True, False)"
proof -
  have m: "matching ex_nova = ''unique''"
    by (simp add: ex_nova_def)
  have x: "\<forall>n \<in> set (excludes ex_nova).
      \<not> sublist n (replace_nl (lower (e_summary ex_entry_nova))) \<and>
      \<not> sublist n (lower (replace_nl (e_title ex_entry_nova)))"
    by (simp add: ex_nova_def)
  have n: "name ex_nova = ''nova''"
    by (simp add: ex_nova_def)
  have e: "e_summary ex_entry_nova = ''A nova was observed''" "e_title ex_entry_nova = ''An outburst''"
    by (simp_all add: ex_entry_nova_def)
  have x0: "excludes ex_nova = []"
    by (simp add: ex_nova_def)
  show ?thesis
    using exact_word_matches_iff_token [of ex_nova ex_entry_nova, OF m x] m x0
    by (simp add: n e ex_entry_nova_token)
qed

text \<open>
  The rule \<open>nova- NOT: super, observed\<close>. In \<open>supernova explosion\<close> no token is
  \<open>nova\<close>, and \<open>get_match\<close> reports the rule as matched; in \<open>a nova was observed\<close> a
  token is \<open>nova\<close>, and the rule adds no keyword.
\<close>

theorem exact_word_iff_fails_for_excluded_rule:
  "matching ex_nova_not = ''unique'' \<and>
   fst (get_match ''supernova explosion'' [] ex_nova_not) \<and>
   \<not> spec_exact_word (name ex_nova_not) ''supernova explosion'' [] \<and>
   spec_exact_word (name ex_nova_not) ''a nova was observed'' [] \<and>
   snd (match_loop ''a nova was observed'' [] [ex_nova_not] (True, [])) = []"
  by code_simp

end
